theory Spec2Isabelle
  imports Main "HOL-Library.Sublist"
begin

section \<open>Cloze Mask Auto-Fill: strings and values\<close>

text \<open>
  A Python \<open>str\<close> is a sequence of Unicode code points; it is modelled as a list of
  natural numbers, one per code point, so that \<open>length\<close> counts what Python's \<open>len\<close>
  counts. ASCII literals of the source are written through \<open>ascii\<close>.
\<close>

type_synonym str = "nat list"

definition ascii :: "string \<Rightarrow> str" where
  "ascii s = map of_char s"

text \<open>
  The configuration is a \<open>Dict[str, object]\<close>. The values the add-on itself puts there
  (\<open>_defaults\<close>, the options dialog) are strings and booleans; these two kinds of
  object are modelled. Keys are the ASCII identifiers of the source.
\<close>

datatype py_value = PStr str | PBool bool

datatype py_error = TypeError | KeyError | NotFoundError

type_synonym config = "string \<rightharpoonup> py_value"

subsection \<open>Built-in string operations used by the source\<close>

text \<open>
  \<open>sentence.find(word)\<close>: the lowest index at which \<open>word\<close> starts in
  \<open>sentence\<close>, and \<open>-1\<close> when there is none.
\<close>

fun py_find :: "str \<Rightarrow> str \<Rightarrow> int" where
  "py_find [] w = (if w = [] then 0 else - 1)"
| "py_find (c # cs) w =
     (if prefix w (c # cs) then 0
      else (let r = py_find cs w in if r = - 1 then - 1 else r + 1))"

text \<open>
  \<open>t in s\<close> on strings is the same search: true when \<open>t\<close> occurs in \<open>s\<close>.
\<close>

definition in_str :: "str \<Rightarrow> str \<Rightarrow> bool" where
  "in_str t s \<longleftrightarrow> py_find s t \<noteq> - 1"

text \<open>
  \<open>str.strip()\<close> without arguments removes leading and trailing whitespace, the code
  points for which \<open>str.isspace\<close> holds.
\<close>

definition isspace :: "nat \<Rightarrow> bool" where
  "isspace c \<longleftrightarrow>
     (9 \<le> c \<and> c \<le> 13) \<or> (28 \<le> c \<and> c \<le> 32) \<or> c = 133 \<or> c = 160 \<or> c = 5760 \<or>
     (8192 \<le> c \<and> c \<le> 8202) \<or> c = 8232 \<or> c = 8233 \<or> c = 8239 \<or> c = 8287 \<or> c = 12288"

definition strip :: "str \<Rightarrow> str" where
  "strip s = rev (dropWhile isspace (rev (dropWhile isspace s)))"

text \<open>
  \<open>s.split(sep)\<close> for a one-character separator: the pieces between separators, in
  order; an empty string gives one empty piece.
\<close>

fun py_split :: "nat \<Rightarrow> str \<Rightarrow> str list" where
  "py_split sep [] = [[]]"
| "py_split sep (c # cs) =
     (if c = sep then [] # py_split sep cs
      else (case py_split sep cs of
              p # ps \<Rightarrow> (c # p) # ps
            | [] \<Rightarrow> [[c]]))"

text \<open>\<open>str(v)\<close> on the modelled objects.\<close>

definition py_str :: "py_value \<Rightarrow> str" where
  "py_str v = (case v of PStr s \<Rightarrow> s | PBool b \<Rightarrow> ascii (if b then ''True'' else ''False''))"

text \<open>
  \<open>str.lower()\<close> is the Unicode lower-case mapping of the interpreter, whose tables are
  not part of the repository: the model takes it as a parameter \<open>lower\<close>. On ASCII
  text it is \<open>ascii_lower\<close>, which the examples use.
\<close>

definition ascii_lower :: "str \<Rightarrow> str" where
  "ascii_lower s = map (\<lambda>c. if 65 \<le> c \<and> c \<le> 90 then c + 32 else c) s"

section \<open>Configuration helpers\<close>

text \<open>The mask of the source, three times U+25FC.\<close>

definition default_mask :: str where
  "default_mask = [9724, 9724, 9724]"

definition defaults :: config where
  "defaults =
     [''sentenceField'' \<mapsto> PStr (ascii ''Sentence''),
      ''wordField'' \<mapsto> PStr (ascii ''Reading''),
      ''destinationField'' \<mapsto> PStr (ascii ''ClozeSentence''),
      ''noteTypes'' \<mapsto> PStr [],
      ''lookupOnAdd'' \<mapsto> PBool True,
      ''maskString'' \<mapsto> PStr default_mask,
      ''bulkActionLabel'' \<mapsto> PStr (ascii ''Generate Cloze Masks''),
      ''debug'' \<mapsto> PBool False]"

text \<open>
  \<open>_load_cfg\<close>: \<open>stored\<close> is what \<open>mw.addonManager.getConfig\<close> returns, a dict or
  \<open>None\<close>; the result is \<open>{**_defaults(), **user}\<close>.
\<close>

definition load_cfg :: "config option \<Rightarrow> config" where
  "load_cfg stored =
     (let user = (case stored of None \<Rightarrow> Map.empty | Some u \<Rightarrow> u)
      in defaults ++ user)"

text \<open>\<open>CFG.get(key, default)\<close>.\<close>

definition cfg_get :: "config \<Rightarrow> string \<Rightarrow> py_value \<Rightarrow> py_value" where
  "cfg_get CFG key dflt = (case CFG key of None \<Rightarrow> dflt | Some v \<Rightarrow> v)"

text \<open>
  The options dialog builds \<open>new_cfg\<close> from the texts of its line edits and the states
  of its check boxes; \<open>x or d\<close> on strings is \<open>or_default\<close>.
\<close>

definition or_default :: "str \<Rightarrow> str \<Rightarrow> str" where
  "or_default x d = (if x = [] then d else x)"

definition new_cfg :: "config \<Rightarrow> str \<Rightarrow> str \<Rightarrow> str \<Rightarrow> str \<Rightarrow> str \<Rightarrow> bool \<Rightarrow> bool \<Rightarrow> config" where
  "new_cfg CFG w_sentence w_word w_dest w_types w_mask w_lookup w_debug =
     [''sentenceField'' \<mapsto> PStr (or_default (strip w_sentence) (ascii ''Sentence'')),
      ''wordField'' \<mapsto> PStr (or_default (strip w_word) (ascii ''Reading'')),
      ''destinationField'' \<mapsto> PStr (or_default (strip w_dest) (ascii ''ClozeSentence'')),
      ''noteTypes'' \<mapsto> PStr (strip w_types),
      ''maskString'' \<mapsto> PStr (or_default (strip w_mask) default_mask),
      ''lookupOnAdd'' \<mapsto> PBool w_lookup,
      ''bulkActionLabel'' \<mapsto> cfg_get CFG ''bulkActionLabel'' (PStr (ascii ''Generate Cloze Masks'')),
      ''debug'' \<mapsto> PBool w_debug]"

section \<open>Notes of the host\<close>

text \<open>
  A note of the host has an id, a note type (\<open>note.note_type()\<close> is a dict with a
  \<open>name\<close>, or \<open>None\<close> when the type is gone) and named fields holding strings.
  \<open>key in note\<close>, \<open>note[key]\<close> and \<open>note[key] = value\<close> look the key up among the
  field names; the last two raise \<open>KeyError\<close> for a key that is no field.
\<close>

record Note =
  note_id :: int
  note_type :: "str option"
  note_fields :: "str \<rightharpoonup> str"

definition note_contains :: "Note \<Rightarrow> py_value \<Rightarrow> bool" where
  "note_contains n key =
     (case key of PStr k \<Rightarrow> note_fields n k \<noteq> None | PBool b \<Rightarrow> False)"

definition note_getitem :: "Note \<Rightarrow> py_value \<Rightarrow> py_error + str" where
  "note_getitem n key =
     (case key of
        PStr k \<Rightarrow> (case note_fields n k of None \<Rightarrow> Inl KeyError | Some v \<Rightarrow> Inr v)
      | PBool b \<Rightarrow> Inl KeyError)"

definition note_setitem :: "Note \<Rightarrow> py_value \<Rightarrow> str \<Rightarrow> py_error + Note" where
  "note_setitem n key v =
     (case key of
        PStr k \<Rightarrow> (case note_fields n k of
                     None \<Rightarrow> Inl KeyError
                   | Some old \<Rightarrow> Inr (n\<lparr>note_fields := (note_fields n)(k \<mapsto> v)\<rparr>))
      | PBool b \<Rightarrow> Inl KeyError)"

section \<open>Core logic\<close>

text \<open>
  \<open>generate_cloze_sentence(sentence, word, mask)\<close>. The result \<open>None\<close> is
  \<open>Inr None\<close>. The caller passes \<open>CFG.get("maskString", ...)\<close>, an object:
  the concatenation \<open>before + mask\<close> raises \<open>TypeError\<close> when it is not a string.
\<close>

definition generate_cloze_sentence :: "str \<Rightarrow> str \<Rightarrow> py_value \<Rightarrow> py_error + str option" where
  "generate_cloze_sentence sentence word mask_str =
     (if sentence = [] \<or> word = [] then Inr None
      else
        let idx = py_find sentence word in
        if idx = - 1 then Inr None
        else
          let before = take (nat idx) sentence;
              after = drop (nat (idx + int (length word))) sentence
          in case mask_str of
               PStr m \<Rightarrow> Inr (Some (before @ m @ after))
             | PBool b \<Rightarrow> Inl TypeError)"

text \<open>
  The list \<open>nt_filter\<close> of \<open>populate_cloze\<close>: the pieces of \<open>noteTypes\<close> between
  commas (code point 44), stripped and lower-cased, without the pieces that strip to
  nothing.
\<close>

definition nt_filter :: "(str \<Rightarrow> str) \<Rightarrow> config \<Rightarrow> str list" where
  "nt_filter lower CFG =
     [lower (strip t). t \<leftarrow> py_split 44 (py_str (cfg_get CFG ''noteTypes'' (PStr []))),
                       strip t \<noteq> []]"

text \<open>
  The condition of the first \<open>if\<close> of \<open>populate_cloze\<close>:
  \<open>nt_filter and not any(t in note_name for t in nt_filter)\<close>.
\<close>

definition type_filtered :: "str list \<Rightarrow> str \<Rightarrow> bool" where
  "type_filtered ntf note_name \<longleftrightarrow> ntf \<noteq> [] \<and> \<not> list_ex (\<lambda>t. in_str t note_name) ntf"

text \<open>
  \<open>populate_cloze(note)\<close> with the global \<open>CFG\<close> as an argument. The note is mutated
  in place; the model returns it with the boolean. The calls of \<open>log\<close> only print and
  are left out.
\<close>

definition populate_cloze :: "(str \<Rightarrow> str) \<Rightarrow> config \<Rightarrow> Note \<Rightarrow> py_error + (bool \<times> Note)" where
  "populate_cloze lower CFG n =
     (let ntf = nt_filter lower CFG in
      case note_type n of
        None \<Rightarrow> Inl TypeError
      | Some name \<Rightarrow>
          let note_name = lower name in
          if type_filtered ntf note_name then Inr (False, n)
          else
            let sentence_field = cfg_get CFG ''sentenceField'' (PStr (ascii ''Sentence''));
                word_field = cfg_get CFG ''wordField'' (PStr (ascii ''Reading''));
                dest_field = cfg_get CFG ''destinationField'' (PStr (ascii ''ClozeSentence''));
                mask_str = cfg_get CFG ''maskString'' (PStr default_mask)
            in
            if \<not> note_contains n sentence_field \<or> \<not> note_contains n word_field
               \<or> \<not> note_contains n dest_field
            then Inr (False, n)
            else
              case note_getitem n sentence_field of
                Inl e \<Rightarrow> Inl e
              | Inr sv \<Rightarrow>
                  (case note_getitem n word_field of
                     Inl e \<Rightarrow> Inl e
                   | Inr wv \<Rightarrow>
                       let sentence = strip sv; word = strip wv in
                       if sentence = [] \<or> word = [] then Inr (False, n)
                       else
                         (case generate_cloze_sentence sentence word mask_str of
                            Inl e \<Rightarrow> Inl e
                          | Inr None \<Rightarrow> Inr (False, n)
                          | Inr (Some clozed) \<Rightarrow>
                              (case note_setitem n dest_field clozed of
                                 Inl e \<Rightarrow> Inl e
                               | Inr n' \<Rightarrow> Inr (True, n')))))"

text \<open>The four options \<open>populate_cloze\<close> reads with their fallbacks, for the statements below.\<close>

abbreviation sentence_field :: "config \<Rightarrow> py_value" where
  "sentence_field CFG \<equiv> cfg_get CFG ''sentenceField'' (PStr (ascii ''Sentence''))"

abbreviation word_field :: "config \<Rightarrow> py_value" where
  "word_field CFG \<equiv> cfg_get CFG ''wordField'' (PStr (ascii ''Reading''))"

abbreviation dest_field :: "config \<Rightarrow> py_value" where
  "dest_field CFG \<equiv> cfg_get CFG ''destinationField'' (PStr (ascii ''ClozeSentence''))"

abbreviation mask_string :: "config \<Rightarrow> py_value" where
  "mask_string CFG \<equiv> cfg_get CFG ''maskString'' (PStr default_mask)"

section \<open>Bulk action\<close>







section \<open>Properties of the search\<close>

lemma py_find_range: "py_find s w = - 1 \<or> 0 \<le> py_find s w"
  by (induction s) (auto simp: Let_def)

lemma occurs_Cons:
  assumes "\<not> prefix w (c # cs)"
  shows "(\<exists>u v. c # cs = u @ w @ v) \<longleftrightarrow> (\<exists>u v. cs = u @ w @ v)"
proof
  assume "\<exists>u v. c # cs = u @ w @ v"
  then obtain u v where uv: "c # cs = u @ w @ v" by blast
  from assms uv have "u \<noteq> []" by (auto simp: prefix_def)
  then obtain u2 where "u = c # u2" using uv by (cases u) auto
  with uv have "cs = u2 @ w @ v" by simp
  then show "\<exists>u v. cs = u @ w @ v" by blast
next
  assume "\<exists>u v. cs = u @ w @ v"
  then obtain u v where "cs = u @ w @ v" by blast
  then have "c # cs = (c # u) @ w @ v" by simp
  then show "\<exists>u v. c # cs = u @ w @ v" by blast
qed

lemma py_find_absent: "py_find s w = - 1 \<longleftrightarrow> \<not> (\<exists>u v. s = u @ w @ v)"
proof (induction s)
  case Nil
  then show ?case by simp
next
  case (Cons c cs)
  show ?case
  proof (cases "prefix w (c # cs)")
    case True
    then obtain v where "c # cs = w @ v" by (auto simp: prefix_def)
    then have "c # cs = [] @ w @ v" by simp
    then have "\<exists>u v. c # cs = u @ w @ v" by blast
    with True show ?thesis by simp
  next
    case False
    have r: "py_find cs w = - 1 \<or> 0 \<le> py_find cs w"
      by (rule py_find_range)
    have "py_find (c # cs) w = - 1 \<longleftrightarrow> py_find cs w = - 1"
      using False r by (auto simp: Let_def)
    also have "\<dots> \<longleftrightarrow> \<not> (\<exists>u v. cs = u @ w @ v)" by (rule Cons.IH)
    also have "\<dots> \<longleftrightarrow> \<not> (\<exists>u v. c # cs = u @ w @ v)"
      using occurs_Cons [OF False] by simp
    finally show ?thesis .
  qed
qed

lemma py_find_first:
  "s = u @ w @ v \<Longrightarrow> (\<forall>u' v'. s = u' @ w @ v' \<longrightarrow> length u \<le> length u')
     \<Longrightarrow> py_find s w = int (length u)"
proof (induction s arbitrary: u)
  case Nil
  then show ?case by simp
next
  case (Cons c cs)
  show ?case
  proof (cases "prefix w (c # cs)")
    case True
    then obtain v' where "c # cs = [] @ w @ v'" by (auto simp: prefix_def)
    with Cons.prems(2) have "length u \<le> length ([]::str)" by blast
    with True show ?thesis by simp
  next
    case False
    with Cons.prems(1) have "u \<noteq> []" by (auto simp: prefix_def)
    then obtain u2 where u: "u = c # u2" using Cons.prems(1) by (cases u) auto
    with Cons.prems(1) have cs: "cs = u2 @ w @ v" by simp
    have least: "\<forall>u' v'. cs = u' @ w @ v' \<longrightarrow> length u2 \<le> length u'"
    proof (intro allI impI)
      fix u' v' assume "cs = u' @ w @ v'"
      then have "c # cs = (c # u') @ w @ v'" by simp
      with Cons.prems(2) have "length u \<le> length (c # u')" by blast
      with u show "length u2 \<le> length u'" by simp
    qed
    from Cons.IH [OF cs least] have "py_find cs w = int (length u2)" .
    with False u show ?thesis by (simp add: Let_def)
  qed
qed

lemma first_occurrence_exists:
  assumes "s = p @ w @ q"
  shows "\<exists>u v. s = u @ w @ v \<and> (\<forall>u' v'. s = u' @ w @ v' \<longrightarrow> length u \<le> length u')"
proof -
  define P where "P n \<longleftrightarrow> (\<exists>u v. s = u @ w @ v \<and> length u = n)" for n
  have "P (length p)" unfolding P_def using assms by blast
  then have "P (LEAST n. P n)" by (rule LeastI)
  then obtain u v where uv: "s = u @ w @ v" and lu: "length u = (LEAST n. P n)"
    unfolding P_def by blast
  have "length u \<le> length u'" if "s = u' @ w @ v'" for u' v'
  proof -
    from that have "P (length u')" unfolding P_def by blast
    then have "(LEAST n. P n) \<le> length u'" by (rule Least_le)
    with lu show ?thesis by simp
  qed
  with uv show ?thesis by blast
qed

lemma generate_first:
  assumes "w \<noteq> []" and "s = u @ w @ v"
    and "\<forall>u' v'. s = u' @ w @ v' \<longrightarrow> length u \<le> length u'"
  shows "generate_cloze_sentence s w (PStr m) = Inr (Some (u @ m @ v))"
proof -
  from assms have s: "s \<noteq> []" by simp
  have idx: "py_find s w = int (length u)"
    using assms(2,3) by (rule py_find_first)
  have "take (length u) s = u" using assms(2) by simp
  moreover have "drop (length u + length w) s = v" using assms(2) by simp
  ultimately show ?thesis
    using s assms(1) idx by (simp add: generate_cloze_sentence_def Let_def nat_add_distrib)
qed

section \<open>The mask generator\<close>

text \<open>
  C1. For every sentence \<open>S\<close>, non-empty word \<open>W\<close> occurring in \<open>S\<close> and mask
  \<open>M\<close>: with \<open>S = u @ W @ v\<close> the occurrence of \<open>W\<close> at the least index
  (\<open>length u\<close>), \<open>generate_cloze_sentence\<close> returns \<open>u @ M @ v\<close>. The span of
  length \<open>length W\<close> at that index is replaced by \<open>M\<close>, each character before it
  keeps its index and value, and the text after it, with any later occurrence of
  \<open>W\<close>, follows the mask unchanged.
\<close>

theorem generate_replaces_first_occurrence:
  assumes "W \<noteq> []" and "S = p @ W @ q"
  shows "\<exists>u v. S = u @ W @ v
           \<and> (\<forall>u' v'. S = u' @ W @ v' \<longrightarrow> length u \<le> length u')
           \<and> generate_cloze_sentence S W (PStr M) = Inr (Some (u @ M @ v))
           \<and> (\<forall>i<length u. (u @ M @ v) ! i = S ! i)
           \<and> (\<forall>j<length v. (u @ M @ v) ! (length u + length M + j) = S ! (length u + length W + j))"
proof -
  from first_occurrence_exists [OF assms(2)] obtain u v
    where uv: "S = u @ W @ v"
      and least: "\<forall>u' v'. S = u' @ W @ v' \<longrightarrow> length u \<le> length u'"
    by blast
  have gen: "generate_cloze_sentence S W (PStr M) = Inr (Some (u @ M @ v))"
    using assms(1) uv least by (rule generate_first)
  have before: "\<forall>i<length u. (u @ M @ v) ! i = S ! i"
    using uv by (simp add: nth_append)
  have after: "\<forall>j<length v. (u @ M @ v) ! (length u + length M + j) = S ! (length u + length W + j)"
    using uv by (simp add: nth_append)
  from uv least gen before after show ?thesis by blast
qed

text \<open>
  The sentence \<open>[1, 2, 3, 1, 2, 3]\<close> holds the word \<open>[2, 3]\<close> twice; only the first
  occurrence is masked.
\<close>

theorem generate_replaces_first_occurrence_witness:
  "(\<exists>u v. [1, 2, 3, 1, 2, 3 :: nat] = u @ [2, 3] @ v
      \<and> (\<forall>u' v'. [1, 2, 3, 1, 2, 3 :: nat] = u' @ [2, 3] @ v' \<longrightarrow> length u \<le> length u')
      \<and> generate_cloze_sentence [1, 2, 3, 1, 2, 3] [2, 3] (PStr [9, 9]) = Inr (Some (u @ [9, 9] @ v))
      \<and> (\<forall>i<length u. (u @ [9, 9] @ v) ! i = [1, 2, 3, 1, 2, 3 :: nat] ! i)
      \<and> (\<forall>j<length v. (u @ [9, 9] @ v) ! (length u + length [9, 9 :: nat] + j)
            = [1, 2, 3, 1, 2, 3 :: nat] ! (length u + length [2, 3 :: nat] + j)))
   \<and> generate_cloze_sentence [1, 2, 3, 1, 2, 3] [2, 3] (PStr [9, 9]) = Inr (Some [1, 9, 9, 1, 2, 3])"
proof -
  have ne: "[2, 3] \<noteq> ([] :: str)" by simp
  have occ: "[1, 2, 3, 1, 2, 3] = [1] @ [2, 3] @ [1, 2, 3 :: nat]" by simp
  have ev: "generate_cloze_sentence [1, 2, 3, 1, 2, 3] [2, 3] (PStr [9, 9]) = Inr (Some [1, 9, 9, 1, 2, 3])"
    by (simp add: generate_cloze_sentence_def Let_def)
  from generate_replaces_first_occurrence [OF ne occ, of "[9, 9]"] ev show ?thesis by blast
qed

text \<open>
  C2. For every sentence \<open>S\<close>, word \<open>W\<close> and mask string \<open>M\<close>, the generator
  returns \<open>None\<close> exactly when \<open>S\<close> is empty, or \<open>W\<close> is empty, or \<open>W\<close> does
  not occur in \<open>S\<close>; in every other case it returns a string.
\<close>

theorem generate_none_iff:
  "(generate_cloze_sentence S W (PStr M) = Inr None
      \<longleftrightarrow> S = [] \<or> W = [] \<or> (\<nexists>u v. S = u @ W @ v))
   \<and> (generate_cloze_sentence S W (PStr M) = Inr None
        \<or> (\<exists>r. generate_cloze_sentence S W (PStr M) = Inr (Some r)))"
  using py_find_absent [of S W]
  by (simp add: generate_cloze_sentence_def Let_def)

theorem generate_none_iff_witness:
  "generate_cloze_sentence [1, 2, 3] [4] (PStr [9]) = Inr None
   \<and> generate_cloze_sentence [] [4] (PStr [9]) = Inr None
   \<and> generate_cloze_sentence [1, 2, 3] [] (PStr [9]) = Inr None
   \<and> generate_cloze_sentence [1, 2, 3] [2] (PStr [9]) = Inr (Some [1, 9, 3])
   \<and> (\<nexists>u v. [1, 2, 3] = u @ [4 :: nat] @ v)"
proof -
  have ev: "generate_cloze_sentence [1, 2, 3] [4] (PStr [9]) = Inr None"
    "generate_cloze_sentence [] [4] (PStr [9]) = Inr None"
    "generate_cloze_sentence [1, 2, 3] [] (PStr [9]) = Inr None"
    "generate_cloze_sentence [1, 2, 3] [2] (PStr [9]) = Inr (Some [1, 9, 3])"
    by (simp_all add: generate_cloze_sentence_def Let_def)
  from generate_none_iff [of "[1, 2, 3]" "[4]" "[9]"] ev(1)
  have "\<nexists>u v. [1, 2, 3] = u @ [4 :: nat] @ v" by simp
  with ev show ?thesis by blast
qed

text \<open>
  C9. The mask may be empty: for a non-empty word \<open>W\<close> occurring in \<open>S\<close>, the
  generator with the empty mask returns \<open>S\<close> with the first occurrence of \<open>W\<close>
  deleted, and with any mask \<open>M\<close> the result has
  \<open>length S - length W + length M\<close> characters.
\<close>

theorem generate_length:
  assumes "W \<noteq> []" and "S = p @ W @ q"
  shows "(\<exists>u v. S = u @ W @ v
            \<and> (\<forall>u' v'. S = u' @ W @ v' \<longrightarrow> length u \<le> length u')
            \<and> generate_cloze_sentence S W (PStr []) = Inr (Some (u @ v)))
         \<and> (\<exists>r. generate_cloze_sentence S W (PStr M) = Inr (Some r)
              \<and> length W \<le> length S
              \<and> length r = length S - length W + length M)"
proof -
  from first_occurrence_exists [OF assms(2)] obtain u v
    where uv: "S = u @ W @ v"
      and least: "\<forall>u' v'. S = u' @ W @ v' \<longrightarrow> length u \<le> length u'"
    by blast
  have del: "generate_cloze_sentence S W (PStr []) = Inr (Some (u @ v))"
    using generate_first [OF assms(1) uv least, of "[]"] by simp
  have gen: "generate_cloze_sentence S W (PStr M) = Inr (Some (u @ M @ v))"
    using assms(1) uv least by (rule generate_first)
  have len: "length W \<le> length S \<and> length (u @ M @ v) = length S - length W + length M"
    using uv by simp
  from uv least del have first: "\<exists>u v. S = u @ W @ v
            \<and> (\<forall>u' v'. S = u' @ W @ v' \<longrightarrow> length u \<le> length u')
            \<and> generate_cloze_sentence S W (PStr []) = Inr (Some (u @ v))" by blast
  from gen len have second: "\<exists>r. generate_cloze_sentence S W (PStr M) = Inr (Some r)
              \<and> length W \<le> length S
              \<and> length r = length S - length W + length M" by blast
  from first second show ?thesis by (rule conjI)
qed

theorem generate_length_witness:
  "(\<exists>u v. [1, 2, 3, 1, 2, 3 :: nat] = u @ [2, 3] @ v
      \<and> (\<forall>u' v'. [1, 2, 3, 1, 2, 3 :: nat] = u' @ [2, 3] @ v' \<longrightarrow> length u \<le> length u')
      \<and> generate_cloze_sentence [1, 2, 3, 1, 2, 3] [2, 3] (PStr []) = Inr (Some (u @ v)))
   \<and> (\<exists>r. generate_cloze_sentence [1, 2, 3, 1, 2, 3] [2, 3] (PStr [7, 8, 9]) = Inr (Some r)
        \<and> length [2, 3 :: nat] \<le> length [1, 2, 3, 1, 2, 3 :: nat]
        \<and> length r = length [1, 2, 3, 1, 2, 3 :: nat] - length [2, 3 :: nat] + length [7, 8, 9 :: nat])
   \<and> generate_cloze_sentence [1, 2, 3, 1, 2, 3] [2, 3] (PStr []) = Inr (Some [1, 1, 2, 3])
   \<and> generate_cloze_sentence [1, 2, 3, 1, 2, 3] [2, 3] (PStr [7, 8, 9]) = Inr (Some [1, 7, 8, 9, 1, 2, 3])"
proof -
  have ne: "[2, 3] \<noteq> ([] :: str)" by simp
  have occ: "[1, 2, 3, 1, 2, 3] = [1] @ [2, 3] @ [1, 2, 3 :: nat]" by simp
  have ev: "generate_cloze_sentence [1, 2, 3, 1, 2, 3] [2, 3] (PStr []) = Inr (Some [1, 1, 2, 3])"
    "generate_cloze_sentence [1, 2, 3, 1, 2, 3] [2, 3] (PStr [7, 8, 9]) = Inr (Some [1, 7, 8, 9, 1, 2, 3])"
    by (simp_all add: generate_cloze_sentence_def Let_def)
  from generate_length [OF ne occ, of "[7, 8, 9]"] ev show ?thesis by blast
qed

section \<open>Properties of the populator\<close>

lemma generate_empty: "sentence = [] \<or> word = [] \<Longrightarrow> generate_cloze_sentence sentence word m = Inr None"
  by (auto simp: generate_cloze_sentence_def)

lemma populate_false_unchanged:
  "populate_cloze lower CFG n = Inr (False, n') \<Longrightarrow> n' = n"
  by (auto simp: populate_cloze_def Let_def split: option.splits sum.splits if_splits)

lemma populate_applicable:
  assumes "note_type n = Some name"
    and "\<not> type_filtered (nt_filter lower CFG) (lower name)"
    and "sentence_field CFG = PStr sname" and "word_field CFG = PStr wname"
    and "dest_field CFG = PStr dname"
    and "note_fields n sname = Some sv" and "note_fields n wname = Some wv"
    and "note_fields n dname = Some old"
    and "generate_cloze_sentence (strip sv) (strip wv) (mask_string CFG) = Inr (Some clozed)"
  shows "populate_cloze lower CFG n = Inr (True, n\<lparr>note_fields := (note_fields n)(dname \<mapsto> clozed)\<rparr>)"
proof -
  have "strip sv \<noteq> [] \<and> strip wv \<noteq> []"
    using assms(9) generate_empty [of "strip sv" "strip wv" "mask_string CFG"] by auto
  then show ?thesis
    using assms
    by (simp add: populate_cloze_def Let_def note_contains_def note_getitem_def note_setitem_def)
qed

lemma populate_true:
  assumes "populate_cloze lower CFG n = Inr (True, n')"
  shows "\<exists>name sname wname dname sv wv old clozed.
           note_type n = Some name
         \<and> \<not> type_filtered (nt_filter lower CFG) (lower name)
         \<and> sentence_field CFG = PStr sname \<and> word_field CFG = PStr wname \<and> dest_field CFG = PStr dname
         \<and> note_fields n sname = Some sv \<and> note_fields n wname = Some wv \<and> note_fields n dname = Some old
         \<and> generate_cloze_sentence (strip sv) (strip wv) (mask_string CFG) = Inr (Some clozed)
         \<and> n' = n\<lparr>note_fields := (note_fields n)(dname \<mapsto> clozed)\<rparr>"
  using assms
  by (auto simp: populate_cloze_def Let_def note_contains_def note_getitem_def note_setitem_def
      split: option.splits sum.splits if_splits py_value.splits)

lemmas model_defs =
  populate_cloze_def Let_def nt_filter_def type_filtered_def in_str_def defaults_def load_cfg_def
  cfg_get_def py_str_def ascii_def ascii_lower_def note_contains_def note_getitem_def
  note_setitem_def strip_def isspace_def generate_cloze_sentence_def default_mask_def

section \<open>The record populator\<close>

text \<open>
  The example of the specification, in code points: with the default configuration, a
  note of type \<open>Vocab\<close> whose sentence (U+5F7C U+306F U+5B66 U+6821 U+306B U+884C U+304D
  U+307E U+3059) holds the reading U+5B66 U+6821 gets the masked sentence in its
  destination field.
\<close>

lemma populate_example:
  "populate_cloze ascii_lower defaults
     \<lparr>note_id = 1, note_type = Some (ascii ''Vocab''),
      note_fields = [ascii ''Sentence'' \<mapsto> [24444, 12399, 23398, 26657, 12395, 34892, 12365, 12414, 12377],
                     ascii ''Reading'' \<mapsto> [23398, 26657],
                     ascii ''ClozeSentence'' \<mapsto> []]\<rparr>
   = Inr (True,
     \<lparr>note_id = 1, note_type = Some (ascii ''Vocab''),
      note_fields = [ascii ''Sentence'' \<mapsto> [24444, 12399, 23398, 26657, 12395, 34892, 12365, 12414, 12377],
                     ascii ''Reading'' \<mapsto> [23398, 26657],
                     ascii ''ClozeSentence'' \<mapsto>
                       [24444, 12399, 9724, 9724, 9724, 12395, 34892, 12365, 12414, 12377]]\<rparr>)"
  by (simp add: model_defs)

text \<open>
  C3, as amended. \<open>populate_cloze\<close> returns \<open>True\<close> exactly when the note has a type
  that passes the filter, the three configured fields exist and the generator produces
  a string from the stripped sentence and word. Under these conditions it returns
  \<open>True\<close> with that string written to the destination field, whether or not the field
  held it already. When it returns \<open>False\<close> the note is as before, so a call that
  changed the note returned \<open>True\<close>.
\<close>

theorem populate_true_iff_written:
  "((\<exists>n'. populate_cloze lower CFG n = Inr (True, n'))
      \<longleftrightarrow> (\<exists>name sname wname dname sv wv old clozed.
               note_type n = Some name
             \<and> \<not> type_filtered (nt_filter lower CFG) (lower name)
             \<and> sentence_field CFG = PStr sname \<and> word_field CFG = PStr wname
             \<and> dest_field CFG = PStr dname
             \<and> note_fields n sname = Some sv \<and> note_fields n wname = Some wv
             \<and> note_fields n dname = Some old
             \<and> generate_cloze_sentence (strip sv) (strip wv) (mask_string CFG) = Inr (Some clozed)))
   \<and> (note_type n = Some name
        \<and> \<not> type_filtered (nt_filter lower CFG) (lower name)
        \<and> sentence_field CFG = PStr sname \<and> word_field CFG = PStr wname
        \<and> dest_field CFG = PStr dname
        \<and> note_fields n sname = Some sv \<and> note_fields n wname = Some wv
        \<and> note_fields n dname = Some old
        \<and> generate_cloze_sentence (strip sv) (strip wv) (mask_string CFG) = Inr (Some clozed)
       \<longrightarrow> populate_cloze lower CFG n
             = Inr (True, n\<lparr>note_fields := (note_fields n)(dname \<mapsto> clozed)\<rparr>))
   \<and> (populate_cloze lower CFG n = Inr (False, n') \<longrightarrow> n' = n)"
proof -
  have written: "populate_cloze lower CFG n
             = Inr (True, n\<lparr>note_fields := (note_fields n)(dname \<mapsto> clozed)\<rparr>)"
    if "note_type n = Some name"
      and "\<not> type_filtered (nt_filter lower CFG) (lower name)"
      and "sentence_field CFG = PStr sname" and "word_field CFG = PStr wname"
      and "dest_field CFG = PStr dname"
      and "note_fields n sname = Some sv" and "note_fields n wname = Some wv"
      and "note_fields n dname = Some old"
      and "generate_cloze_sentence (strip sv) (strip wv) (mask_string CFG) = Inr (Some clozed)"
    for name sname wname dname sv wv old clozed
    using that by (rule populate_applicable)
  have only_if: "\<exists>name sname wname dname sv wv old clozed.
               note_type n = Some name
             \<and> \<not> type_filtered (nt_filter lower CFG) (lower name)
             \<and> sentence_field CFG = PStr sname \<and> word_field CFG = PStr wname
             \<and> dest_field CFG = PStr dname
             \<and> note_fields n sname = Some sv \<and> note_fields n wname = Some wv
             \<and> note_fields n dname = Some old
             \<and> generate_cloze_sentence (strip sv) (strip wv) (mask_string CFG) = Inr (Some clozed)"
    if "populate_cloze lower CFG n = Inr (True, m)" for m
    using populate_true [OF that] by blast
  have unchanged: "populate_cloze lower CFG n = Inr (False, n') \<longrightarrow> n' = n"
    using populate_false_unchanged by blast
  have iff: "(\<exists>n'. populate_cloze lower CFG n = Inr (True, n'))
      \<longleftrightarrow> (\<exists>name sname wname dname sv wv old clozed.
               note_type n = Some name
             \<and> \<not> type_filtered (nt_filter lower CFG) (lower name)
             \<and> sentence_field CFG = PStr sname \<and> word_field CFG = PStr wname
             \<and> dest_field CFG = PStr dname
             \<and> note_fields n sname = Some sv \<and> note_fields n wname = Some wv
             \<and> note_fields n dname = Some old
             \<and> generate_cloze_sentence (strip sv) (strip wv) (mask_string CFG) = Inr (Some clozed))"
  proof
    assume "\<exists>n'. populate_cloze lower CFG n = Inr (True, n')"
    then obtain m where "populate_cloze lower CFG n = Inr (True, m)" by blast
    then show "\<exists>name sname wname dname sv wv old clozed.
               note_type n = Some name
             \<and> \<not> type_filtered (nt_filter lower CFG) (lower name)
             \<and> sentence_field CFG = PStr sname \<and> word_field CFG = PStr wname
             \<and> dest_field CFG = PStr dname
             \<and> note_fields n sname = Some sv \<and> note_fields n wname = Some wv
             \<and> note_fields n dname = Some old
             \<and> generate_cloze_sentence (strip sv) (strip wv) (mask_string CFG) = Inr (Some clozed)"
      by (rule only_if)
  next
    assume "\<exists>name sname wname dname sv wv old clozed.
               note_type n = Some name
             \<and> \<not> type_filtered (nt_filter lower CFG) (lower name)
             \<and> sentence_field CFG = PStr sname \<and> word_field CFG = PStr wname
             \<and> dest_field CFG = PStr dname
             \<and> note_fields n sname = Some sv \<and> note_fields n wname = Some wv
             \<and> note_fields n dname = Some old
             \<and> generate_cloze_sentence (strip sv) (strip wv) (mask_string CFG) = Inr (Some clozed)"
    then obtain name sname wname dname sv wv old clozed
      where h: "note_type n = Some name"
        "\<not> type_filtered (nt_filter lower CFG) (lower name)"
        "sentence_field CFG = PStr sname" "word_field CFG = PStr wname"
        "dest_field CFG = PStr dname"
        "note_fields n sname = Some sv" "note_fields n wname = Some wv"
        "note_fields n dname = Some old"
        "generate_cloze_sentence (strip sv) (strip wv) (mask_string CFG) = Inr (Some clozed)"
      by blast
    from populate_applicable [OF h] show "\<exists>n'. populate_cloze lower CFG n = Inr (True, n')"
      by blast
  qed
  from written have second: "note_type n = Some name
        \<and> \<not> type_filtered (nt_filter lower CFG) (lower name)
        \<and> sentence_field CFG = PStr sname \<and> word_field CFG = PStr wname
        \<and> dest_field CFG = PStr dname
        \<and> note_fields n sname = Some sv \<and> note_fields n wname = Some wv
        \<and> note_fields n dname = Some old
        \<and> generate_cloze_sentence (strip sv) (strip wv) (mask_string CFG) = Inr (Some clozed)
       \<longrightarrow> populate_cloze lower CFG n
             = Inr (True, n\<lparr>note_fields := (note_fields n)(dname \<mapsto> clozed)\<rparr>)"
    by blast
  from iff second unchanged show ?thesis by (intro conjI)
qed

text \<open>
  The claim as stated fails on a note whose destination field holds the masked sentence
  already: the call returns \<open>True\<close> and the note, the destination field included, is
  what it was.
\<close>

theorem populate_true_without_change:
  "populate_cloze ascii_lower defaults
     \<lparr>note_id = 1, note_type = Some (ascii ''Vocab''),
      note_fields = [ascii ''Sentence'' \<mapsto> ascii ''I like tea'',
                     ascii ''Reading'' \<mapsto> ascii ''tea'',
                     ascii ''ClozeSentence'' \<mapsto> ascii ''I like '' @ default_mask]\<rparr>
   = Inr (True,
     \<lparr>note_id = 1, note_type = Some (ascii ''Vocab''),
      note_fields = [ascii ''Sentence'' \<mapsto> ascii ''I like tea'',
                     ascii ''Reading'' \<mapsto> ascii ''tea'',
                     ascii ''ClozeSentence'' \<mapsto> ascii ''I like '' @ default_mask]\<rparr>)"
  by (simp add: model_defs)

theorem populate_true_iff_written_witness:
  "populate_cloze ascii_lower defaults
     \<lparr>note_id = 1, note_type = Some (ascii ''Vocab''),
      note_fields = [ascii ''Sentence'' \<mapsto> ascii ''I like tea'',
                     ascii ''Reading'' \<mapsto> ascii ''tea'',
                     ascii ''ClozeSentence'' \<mapsto> []]\<rparr>
   = Inr (True,
     \<lparr>note_id = 1, note_type = Some (ascii ''Vocab''),
      note_fields = [ascii ''Sentence'' \<mapsto> ascii ''I like tea'',
                     ascii ''Reading'' \<mapsto> ascii ''tea'',
                     ascii ''ClozeSentence'' \<mapsto> ascii ''I like '' @ default_mask]\<rparr>)"
proof -
  let ?n = "\<lparr>note_id = 1, note_type = Some (ascii ''Vocab''),
      note_fields = [ascii ''Sentence'' \<mapsto> ascii ''I like tea'',
                     ascii ''Reading'' \<mapsto> ascii ''tea'',
                     ascii ''ClozeSentence'' \<mapsto> []]\<rparr>"
  have c: "note_type ?n = Some (ascii ''Vocab'')
        \<and> \<not> type_filtered (nt_filter ascii_lower defaults) (ascii_lower (ascii ''Vocab''))
        \<and> sentence_field defaults = PStr (ascii ''Sentence'')
        \<and> word_field defaults = PStr (ascii ''Reading'')
        \<and> dest_field defaults = PStr (ascii ''ClozeSentence'')
        \<and> note_fields ?n (ascii ''Sentence'') = Some (ascii ''I like tea'')
        \<and> note_fields ?n (ascii ''Reading'') = Some (ascii ''tea'')
        \<and> note_fields ?n (ascii ''ClozeSentence'') = Some []
        \<and> generate_cloze_sentence (strip (ascii ''I like tea'')) (strip (ascii ''tea''))
              (mask_string defaults) = Inr (Some (ascii ''I like '' @ default_mask))"
    by (simp add: model_defs)
  have "populate_cloze ascii_lower defaults ?n
          = Inr (True, ?n\<lparr>note_fields := (note_fields ?n)(ascii ''ClozeSentence'' \<mapsto> ascii ''I like '' @ default_mask)\<rparr>)"
    using populate_true_iff_written [THEN conjunct2, THEN conjunct1, THEN mp, OF c] .
  then show ?thesis by simp
qed

text \<open>
  C5. For a note that has a type: when the type is filtered out, or one of the three
  configured fields is missing, or the stripped sentence or word is empty, or the
  generator returns \<open>None\<close>, \<open>populate_cloze\<close> returns \<open>False\<close> and the note is
  unchanged.
\<close>

theorem populate_short_circuit:
  assumes "note_type n = Some name"
    and "type_filtered (nt_filter lower CFG) (lower name)
         \<or> \<not> note_contains n (sentence_field CFG)
         \<or> \<not> note_contains n (word_field CFG)
         \<or> \<not> note_contains n (dest_field CFG)
         \<or> (\<exists>sname wname sv wv.
               sentence_field CFG = PStr sname \<and> word_field CFG = PStr wname
             \<and> note_fields n sname = Some sv \<and> note_fields n wname = Some wv
             \<and> (strip sv = [] \<or> strip wv = []
                  \<or> generate_cloze_sentence (strip sv) (strip wv) (mask_string CFG) = Inr None))"
  shows "populate_cloze lower CFG n = Inr (False, n)"
  using assms
  by (auto simp: populate_cloze_def Let_def note_getitem_def split: option.splits)

theorem populate_short_circuit_witness:
  "populate_cloze ascii_lower (defaults(''noteTypes'' \<mapsto> PStr (ascii ''verb,adj'')))
     \<lparr>note_id = 1, note_type = Some (ascii ''Vocab Noun''),
      note_fields = [ascii ''Sentence'' \<mapsto> ascii ''I like tea'',
                     ascii ''Reading'' \<mapsto> ascii ''tea'',
                     ascii ''ClozeSentence'' \<mapsto> []]\<rparr>
   = Inr (False,
     \<lparr>note_id = 1, note_type = Some (ascii ''Vocab Noun''),
      note_fields = [ascii ''Sentence'' \<mapsto> ascii ''I like tea'',
                     ascii ''Reading'' \<mapsto> ascii ''tea'',
                     ascii ''ClozeSentence'' \<mapsto> []]\<rparr>)
   \<and> populate_cloze ascii_lower defaults
     \<lparr>note_id = 2, note_type = Some (ascii ''Vocab''),
      note_fields = [ascii ''Sentence'' \<mapsto> ascii ''I like tea'',
                     ascii ''Reading'' \<mapsto> ascii ''milk'',
                     ascii ''ClozeSentence'' \<mapsto> []]\<rparr>
   = Inr (False,
     \<lparr>note_id = 2, note_type = Some (ascii ''Vocab''),
      note_fields = [ascii ''Sentence'' \<mapsto> ascii ''I like tea'',
                     ascii ''Reading'' \<mapsto> ascii ''milk'',
                     ascii ''ClozeSentence'' \<mapsto> []]\<rparr>)
   \<and> populate_cloze ascii_lower defaults
     \<lparr>note_id = 3, note_type = Some (ascii ''Vocab''),
      note_fields = [ascii ''Sentence'' \<mapsto> ascii ''I like tea'',
                     ascii ''Reading'' \<mapsto> ascii ''tea'']\<rparr>
   = Inr (False,
     \<lparr>note_id = 3, note_type = Some (ascii ''Vocab''),
      note_fields = [ascii ''Sentence'' \<mapsto> ascii ''I like tea'',
                     ascii ''Reading'' \<mapsto> ascii ''tea'']\<rparr>)"
proof -
  let ?C = "defaults(''noteTypes'' \<mapsto> PStr (ascii ''verb,adj''))"
  let ?n1 = "\<lparr>note_id = 1, note_type = Some (ascii ''Vocab Noun''),
      note_fields = [ascii ''Sentence'' \<mapsto> ascii ''I like tea'',
                     ascii ''Reading'' \<mapsto> ascii ''tea'',
                     ascii ''ClozeSentence'' \<mapsto> []]\<rparr>"
  let ?n2 = "\<lparr>note_id = 2, note_type = Some (ascii ''Vocab''),
      note_fields = [ascii ''Sentence'' \<mapsto> ascii ''I like tea'',
                     ascii ''Reading'' \<mapsto> ascii ''milk'',
                     ascii ''ClozeSentence'' \<mapsto> []]\<rparr>"
  let ?n3 = "\<lparr>note_id = 3, note_type = Some (ascii ''Vocab''),
      note_fields = [ascii ''Sentence'' \<mapsto> ascii ''I like tea'',
                     ascii ''Reading'' \<mapsto> ascii ''tea'']\<rparr>"
  have t1: "note_type ?n1 = Some (ascii ''Vocab Noun'')" by simp
  have f1: "type_filtered (nt_filter ascii_lower ?C) (ascii_lower (ascii ''Vocab Noun''))"
    by (simp add: model_defs)
  have r1: "populate_cloze ascii_lower ?C ?n1 = Inr (False, ?n1)"
    using t1 f1 by (intro populate_short_circuit) blast+
  have t2: "note_type ?n2 = Some (ascii ''Vocab'')" by simp
  have f2: "sentence_field defaults = PStr (ascii ''Sentence'')
      \<and> word_field defaults = PStr (ascii ''Reading'')
      \<and> note_fields ?n2 (ascii ''Sentence'') = Some (ascii ''I like tea'')
      \<and> note_fields ?n2 (ascii ''Reading'') = Some (ascii ''milk'')
      \<and> generate_cloze_sentence (strip (ascii ''I like tea'')) (strip (ascii ''milk''))
            (mask_string defaults) = Inr None"
    by (simp add: model_defs)
  have r2: "populate_cloze ascii_lower defaults ?n2 = Inr (False, ?n2)"
    using t2 f2 by (intro populate_short_circuit) blast+
  have t3: "note_type ?n3 = Some (ascii ''Vocab'')" by simp
  have f3: "\<not> note_contains ?n3 (dest_field defaults)"
    by (simp add: model_defs)
  have r3: "populate_cloze ascii_lower defaults ?n3 = Inr (False, ?n3)"
    using t3 f3 by (intro populate_short_circuit) blast+
  from r1 r2 r3 show ?thesis by (intro conjI)
qed

text \<open>
  C8. Once \<open>populate_cloze\<close> has written the masked sentence, and the values of the
  sentence field and of the word field are what they were before that call, running it
  again returns \<open>True\<close> and writes the same value: the note is as before the re-run.
\<close>

theorem populate_idempotent:
  assumes "populate_cloze lower CFG n = Inr (True, n')"
    and "sentence_field CFG = PStr sname" and "word_field CFG = PStr wname"
    and "note_fields n' sname = note_fields n sname"
    and "note_fields n' wname = note_fields n wname"
  shows "populate_cloze lower CFG n' = Inr (True, n')"
proof -
  from populate_true [OF assms(1)] assms(2,3) obtain name dname sv wv old clozed
    where h: "note_type n = Some name"
      "\<not> type_filtered (nt_filter lower CFG) (lower name)"
      "dest_field CFG = PStr dname"
      "note_fields n sname = Some sv" "note_fields n wname = Some wv"
      "note_fields n dname = Some old"
      "generate_cloze_sentence (strip sv) (strip wv) (mask_string CFG) = Inr (Some clozed)"
      and n': "n' = n\<lparr>note_fields := (note_fields n)(dname \<mapsto> clozed)\<rparr>"
    by auto
  have ty: "note_type n' = Some name" using h(1) n' by simp
  have s': "note_fields n' sname = Some sv" using assms(4) h(4) by simp
  have w': "note_fields n' wname = Some wv" using assms(5) h(5) by simp
  have d': "note_fields n' dname = Some clozed" using n' by simp
  have "populate_cloze lower CFG n'
          = Inr (True, n'\<lparr>note_fields := (note_fields n')(dname \<mapsto> clozed)\<rparr>)"
    using ty h(2) assms(2,3) h(3) s' w' d' h(7) by (rule populate_applicable)
  moreover have "n'\<lparr>note_fields := (note_fields n')(dname \<mapsto> clozed)\<rparr> = n'"
    using n' by simp
  ultimately show ?thesis by simp
qed

theorem populate_idempotent_witness:
  "populate_cloze ascii_lower defaults
     \<lparr>note_id = 1, note_type = Some (ascii ''Vocab''),
      note_fields = [ascii ''Sentence'' \<mapsto> ascii ''tea and tea'',
                     ascii ''Reading'' \<mapsto> ascii ''tea'',
                     ascii ''ClozeSentence'' \<mapsto> default_mask @ ascii '' and tea'']\<rparr>
   = Inr (True,
     \<lparr>note_id = 1, note_type = Some (ascii ''Vocab''),
      note_fields = [ascii ''Sentence'' \<mapsto> ascii ''tea and tea'',
                     ascii ''Reading'' \<mapsto> ascii ''tea'',
                     ascii ''ClozeSentence'' \<mapsto> default_mask @ ascii '' and tea'']\<rparr>)"
proof -
  let ?n = "\<lparr>note_id = 1, note_type = Some (ascii ''Vocab''),
      note_fields = [ascii ''Sentence'' \<mapsto> ascii ''tea and tea'',
                     ascii ''Reading'' \<mapsto> ascii ''tea'',
                     ascii ''ClozeSentence'' \<mapsto> []]\<rparr>"
  let ?n' = "\<lparr>note_id = 1, note_type = Some (ascii ''Vocab''),
      note_fields = [ascii ''Sentence'' \<mapsto> ascii ''tea and tea'',
                     ascii ''Reading'' \<mapsto> ascii ''tea'',
                     ascii ''ClozeSentence'' \<mapsto> default_mask @ ascii '' and tea'']\<rparr>"
  have first: "populate_cloze ascii_lower defaults ?n = Inr (True, ?n')"
    by (simp add: model_defs)
  have cs: "sentence_field defaults = PStr (ascii ''Sentence'')"
    by (simp add: defaults_def cfg_get_def)
  have cw: "word_field defaults = PStr (ascii ''Reading'')"
    by (simp add: defaults_def cfg_get_def)
  have s: "note_fields ?n' (ascii ''Sentence'') = note_fields ?n (ascii ''Sentence'')"
    by (simp add: ascii_def)
  have w: "note_fields ?n' (ascii ''Reading'') = note_fields ?n (ascii ''Reading'')"
    by (simp add: ascii_def)
  from populate_idempotent [OF first cs cw s w] show ?thesis .
qed

section \<open>The note-type filter\<close>

lemma in_str_iff: "in_str t s \<longleftrightarrow> (\<exists>u v. s = u @ t @ v)"
  using py_find_absent [of s t] by (simp add: in_str_def)

lemma py_split_not_Nil: "py_split sep s \<noteq> []"
  by (induction s) (auto split: list.splits)

lemma py_split_pieces: "p \<in> set (py_split sep s) \<Longrightarrow> sep \<notin> set p \<and> set p \<subseteq> set s"
proof (induction s arbitrary: p)
  case Nil
  then show ?case by simp
next
  case (Cons c cs)
  show ?case
  proof (cases "c = sep")
    case True
    with Cons.prems have "p = [] \<or> p \<in> set (py_split sep cs)" by simp
    with Cons.IH show ?thesis by auto
  next
    case False
    obtain q qs where q: "py_split sep cs = q # qs"
      using py_split_not_Nil [of sep cs] by (cases "py_split sep cs") auto
    with False Cons.prems have "p = c # q \<or> p \<in> set qs" by simp
    moreover have "sep \<notin> set q \<and> set q \<subseteq> set cs" using Cons.IH [of q] q by simp
    moreover have "p \<in> set qs \<Longrightarrow> sep \<notin> set p \<and> set p \<subseteq> set cs"
      using Cons.IH [of p] q by simp
    ultimately show ?thesis using False by auto
  qed
qed

lemma py_split_join: "concat (map (\<lambda>p. p @ [sep]) (py_split sep s)) = s @ [sep]"
proof (induction s)
  case Nil
  then show ?case by simp
next
  case (Cons c cs)
  obtain q qs where q: "py_split sep cs = q # qs"
    using py_split_not_Nil [of sep cs] by (cases "py_split sep cs") auto
  with Cons show ?case by auto
qed

lemma strip_all_space:
  assumes "\<forall>c\<in>set p. isspace c"
  shows "strip p = []"
proof -
  from assms have d: "dropWhile isspace p = []" by simp
  show ?thesis unfolding strip_def d by simp
qed

lemma comprehension_filter_map:
  "concat (map (\<lambda>t. if P t then [f t] else []) xs) = map f (filter P xs)"
  by (induction xs) simp_all

text \<open>
  C4. For a note with a type name: the type filter lets it pass exactly when the list
  of filter tokens is empty or the lower-cased type name contains one of the tokens as
  a substring. A note that does not pass is left as it is and \<open>populate_cloze\<close> returns
  \<open>False\<close>. A note that passes is treated as with no filter at all (the empty
  \<open>noteTypes\<close>), and when its fields and the generator allow it, it gets the masked
  sentence and \<open>populate_cloze\<close> returns \<open>True\<close>.
\<close>

theorem type_filter_passes_iff:
  assumes "note_type n = Some name"
  shows "(\<not> type_filtered (nt_filter lower CFG) (lower name)
            \<longleftrightarrow> nt_filter lower CFG = []
                \<or> (\<exists>t u v. t \<in> set (nt_filter lower CFG) \<and> lower name = u @ t @ v))
         \<and> (\<not> (nt_filter lower CFG = []
                 \<or> (\<exists>t u v. t \<in> set (nt_filter lower CFG) \<and> lower name = u @ t @ v))
              \<longrightarrow> populate_cloze lower CFG n = Inr (False, n))
         \<and> (nt_filter lower CFG = []
               \<or> (\<exists>t u v. t \<in> set (nt_filter lower CFG) \<and> lower name = u @ t @ v)
              \<longrightarrow> populate_cloze lower CFG n
                    = populate_cloze lower (CFG(''noteTypes'' \<mapsto> PStr [])) n
                \<and> nt_filter lower (CFG(''noteTypes'' \<mapsto> PStr [])) = []
                \<and> (sentence_field CFG = PStr sname \<and> word_field CFG = PStr wname
                     \<and> dest_field CFG = PStr dname
                     \<and> note_fields n sname = Some sv \<and> note_fields n wname = Some wv
                     \<and> note_fields n dname = Some old
                     \<and> generate_cloze_sentence (strip sv) (strip wv) (mask_string CFG)
                           = Inr (Some clozed)
                    \<longrightarrow> populate_cloze lower CFG n
                          = Inr (True, n\<lparr>note_fields := (note_fields n)(dname \<mapsto> clozed)\<rparr>)))"
proof -
  let ?pass = "nt_filter lower CFG = []
                \<or> (\<exists>t u v. t \<in> set (nt_filter lower CFG) \<and> lower name = u @ t @ v)"
  have iff: "\<not> type_filtered (nt_filter lower CFG) (lower name) \<longleftrightarrow> ?pass"
    by (auto simp: type_filtered_def list_ex_iff in_str_iff)
  have out: "populate_cloze lower CFG n = Inr (False, n)" if "\<not> ?pass"
  proof -
    from that iff have "type_filtered (nt_filter lower CFG) (lower name)" by blast
    with assms show ?thesis by (simp add: populate_cloze_def Let_def)
  qed
  have e: "nt_filter lower (CFG(''noteTypes'' \<mapsto> PStr [])) = []"
    by (simp add: nt_filter_def cfg_get_def py_str_def strip_def)
  have same: "populate_cloze lower CFG n = populate_cloze lower (CFG(''noteTypes'' \<mapsto> PStr [])) n"
    if "?pass"
  proof -
    from that iff have p: "\<not> type_filtered (nt_filter lower CFG) (lower name)" by blast
    have q: "\<not> type_filtered [] (lower name)" by (simp add: type_filtered_def)
    show ?thesis
      using assms p q by (simp add: populate_cloze_def e cfg_get_def)
  qed
  have through: "populate_cloze lower CFG n
                = Inr (True, n\<lparr>note_fields := (note_fields n)(dname \<mapsto> clozed)\<rparr>)"
    if "?pass"
      and "sentence_field CFG = PStr sname \<and> word_field CFG = PStr wname
           \<and> dest_field CFG = PStr dname
           \<and> note_fields n sname = Some sv \<and> note_fields n wname = Some wv
           \<and> note_fields n dname = Some old
           \<and> generate_cloze_sentence (strip sv) (strip wv) (mask_string CFG) = Inr (Some clozed)"
  proof -
    from that(1) iff have p: "\<not> type_filtered (nt_filter lower CFG) (lower name)" by blast
    from that(2) have h: "sentence_field CFG = PStr sname" "word_field CFG = PStr wname"
      "dest_field CFG = PStr dname"
      "note_fields n sname = Some sv" "note_fields n wname = Some wv"
      "note_fields n dname = Some old"
      "generate_cloze_sentence (strip sv) (strip wv) (mask_string CFG) = Inr (Some clozed)"
      by simp_all
    from populate_applicable [OF assms p h] show ?thesis .
  qed
  from iff out same e through show ?thesis by blast
qed

theorem type_filter_passes_iff_witness:
  "nt_filter ascii_lower (defaults(''noteTypes'' \<mapsto> PStr (ascii ''Verb, vocab'')))
        = [ascii ''verb'', ascii ''vocab'']
   \<and> populate_cloze ascii_lower (defaults(''noteTypes'' \<mapsto> PStr (ascii ''Verb, vocab'')))
        \<lparr>note_id = 1, note_type = Some (ascii ''Basic Vocab''),
         note_fields = [ascii ''Sentence'' \<mapsto> ascii ''I like tea'',
                        ascii ''Reading'' \<mapsto> ascii ''tea'',
                        ascii ''ClozeSentence'' \<mapsto> []]\<rparr>
      = Inr (True,
        \<lparr>note_id = 1, note_type = Some (ascii ''Basic Vocab''),
         note_fields = [ascii ''Sentence'' \<mapsto> ascii ''I like tea'',
                        ascii ''Reading'' \<mapsto> ascii ''tea'',
                        ascii ''ClozeSentence'' \<mapsto> ascii ''I like '' @ default_mask]\<rparr>)
   \<and> populate_cloze ascii_lower (defaults(''noteTypes'' \<mapsto> PStr (ascii ''verb,adj'')))
        \<lparr>note_id = 1, note_type = Some (ascii ''Basic Vocab''),
         note_fields = [ascii ''Sentence'' \<mapsto> ascii ''I like tea'',
                        ascii ''Reading'' \<mapsto> ascii ''tea'',
                        ascii ''ClozeSentence'' \<mapsto> []]\<rparr>
      = Inr (False,
        \<lparr>note_id = 1, note_type = Some (ascii ''Basic Vocab''),
         note_fields = [ascii ''Sentence'' \<mapsto> ascii ''I like tea'',
                        ascii ''Reading'' \<mapsto> ascii ''tea'',
                        ascii ''ClozeSentence'' \<mapsto> []]\<rparr>)"
proof -
  let ?C = "defaults(''noteTypes'' \<mapsto> PStr (ascii ''Verb, vocab''))"
  let ?D = "defaults(''noteTypes'' \<mapsto> PStr (ascii ''verb,adj''))"
  let ?n = "\<lparr>note_id = 1, note_type = Some (ascii ''Basic Vocab''),
         note_fields = [ascii ''Sentence'' \<mapsto> ascii ''I like tea'',
                        ascii ''Reading'' \<mapsto> ascii ''tea'',
                        ascii ''ClozeSentence'' \<mapsto> []]\<rparr>"
  have ty: "note_type ?n = Some (ascii ''Basic Vocab'')" by simp
  have toks: "nt_filter ascii_lower ?C = [ascii ''verb'', ascii ''vocab'']"
    by (simp add: model_defs)
  have "ascii_lower (ascii ''Basic Vocab'') = ascii ''basic '' @ ascii ''vocab'' @ []"
    by (simp add: ascii_lower_def ascii_def)
  with toks have pass: "nt_filter ascii_lower ?C = []
      \<or> (\<exists>t u v. t \<in> set (nt_filter ascii_lower ?C) \<and> ascii_lower (ascii ''Basic Vocab'') = u @ t @ v)"
    by (intro disjI2 exI [of _ "ascii ''vocab''"] exI [of _ "ascii ''basic ''"] exI [of _ "[]"]) simp
  have c: "sentence_field ?C = PStr (ascii ''Sentence'')
        \<and> word_field ?C = PStr (ascii ''Reading'')
        \<and> dest_field ?C = PStr (ascii ''ClozeSentence'')
        \<and> note_fields ?n (ascii ''Sentence'') = Some (ascii ''I like tea'')
        \<and> note_fields ?n (ascii ''Reading'') = Some (ascii ''tea'')
        \<and> note_fields ?n (ascii ''ClozeSentence'') = Some []
        \<and> generate_cloze_sentence (strip (ascii ''I like tea'')) (strip (ascii ''tea''))
              (mask_string ?C) = Inr (Some (ascii ''I like '' @ default_mask))"
    by (simp add: model_defs)
  have "populate_cloze ascii_lower ?C ?n
          = Inr (True, ?n\<lparr>note_fields := (note_fields ?n)(ascii ''ClozeSentence'' \<mapsto> ascii ''I like '' @ default_mask)\<rparr>)"
    using type_filter_passes_iff [OF ty, THEN conjunct2, THEN conjunct2, THEN mp, OF pass,
        THEN conjunct2, THEN conjunct2, THEN mp, OF c] .
  then have r1: "populate_cloze ascii_lower ?C ?n
      = Inr (True,
        \<lparr>note_id = 1, note_type = Some (ascii ''Basic Vocab''),
         note_fields = [ascii ''Sentence'' \<mapsto> ascii ''I like tea'',
                        ascii ''Reading'' \<mapsto> ascii ''tea'',
                        ascii ''ClozeSentence'' \<mapsto> ascii ''I like '' @ default_mask]\<rparr>)"
    by simp
  have out: "\<not> type_filtered (nt_filter ascii_lower ?D) (ascii_lower (ascii ''Basic Vocab''))
       \<longleftrightarrow> False"
    by (simp add: model_defs)
  have nopass: "\<not> (nt_filter ascii_lower ?D = []
      \<or> (\<exists>t u v. t \<in> set (nt_filter ascii_lower ?D) \<and> ascii_lower (ascii ''Basic Vocab'') = u @ t @ v))"
    using type_filter_passes_iff [OF ty, THEN conjunct1, of ascii_lower ?D] out by blast
  have r2: "populate_cloze ascii_lower ?D ?n = Inr (False, ?n)"
    using type_filter_passes_iff [OF ty, THEN conjunct2, THEN conjunct1, THEN mp, OF nopass] .
  from toks r1 r2 show ?thesis by (intro conjI)
qed

text \<open>
  C10. The filter tokens are the pieces of the \<open>noteTypes\<close> string between commas
  (pieces without a comma that give the string back when joined by commas), stripped,
  without those that strip to nothing, lower-cased. So a \<open>noteTypes\<close> string of commas
  and whitespace only gives no token, no note is filtered out by its type, and
  \<open>populate_cloze\<close> does what it does with the empty \<open>noteTypes\<close>.
\<close>

theorem nt_filter_tokens:
  "(\<exists>pieces.
      concat (map (\<lambda>p. p @ [44]) pieces) = py_str (cfg_get CFG ''noteTypes'' (PStr [])) @ [44]
    \<and> (\<forall>p\<in>set pieces. 44 \<notin> set p)
    \<and> nt_filter lower CFG = map lower (filter (\<lambda>t. t \<noteq> []) (map strip pieces)))
   \<and> (CFG ''noteTypes'' = Some (PStr s) \<and> (\<forall>c\<in>set s. c = 44 \<or> isspace c)
        \<longrightarrow> nt_filter lower CFG = []
          \<and> \<not> type_filtered (nt_filter lower CFG) name
          \<and> populate_cloze lower CFG n = populate_cloze lower (CFG(''noteTypes'' \<mapsto> PStr [])) n)"
proof -
  let ?s = "py_str (cfg_get CFG ''noteTypes'' (PStr []))"
  have a: "concat (map (\<lambda>p. p @ [44]) (py_split 44 ?s)) = ?s @ [44]"
    by (rule py_split_join)
  have b: "\<forall>p\<in>set (py_split 44 ?s). 44 \<notin> set p"
    using py_split_pieces [of _ 44 ?s] by blast
  have c: "nt_filter lower CFG = map lower (filter (\<lambda>t. t \<noteq> []) (map strip (py_split 44 ?s)))"
    by (simp add: nt_filter_def comprehension_filter_map filter_map comp_def)
  have first: "\<exists>pieces.
      concat (map (\<lambda>p. p @ [44]) pieces) = ?s @ [44]
    \<and> (\<forall>p\<in>set pieces. 44 \<notin> set p)
    \<and> nt_filter lower CFG = map lower (filter (\<lambda>t. t \<noteq> []) (map strip pieces))"
    using a b c by blast
  have second: "nt_filter lower CFG = []
          \<and> \<not> type_filtered (nt_filter lower CFG) name
          \<and> populate_cloze lower CFG n = populate_cloze lower (CFG(''noteTypes'' \<mapsto> PStr [])) n"
    if cfg: "CFG ''noteTypes'' = Some (PStr s)"
      and ws: "(\<forall>c\<in>set s. c = 44 \<or> isspace c)"
  proof -
    have s: "?s = s" using cfg by (simp add: cfg_get_def py_str_def)
    have "strip p = []" if "p \<in> set (py_split 44 s)" for p
    proof -
      from py_split_pieces [OF that] have "44 \<notin> set p" "set p \<subseteq> set s" by simp_all
      with ws have "\<forall>c\<in>set p. isspace c" by auto
      then show ?thesis by (rule strip_all_space)
    qed
    then have "filter (\<lambda>t. t \<noteq> []) (map strip (py_split 44 s)) = []"
      by (simp add: filter_empty_conv)
    with c s have e: "nt_filter lower CFG = []" by simp
    have e': "nt_filter lower (CFG(''noteTypes'' \<mapsto> PStr [])) = []"
      by (simp add: nt_filter_def cfg_get_def py_str_def strip_def)
    have p: "populate_cloze lower CFG n = populate_cloze lower (CFG(''noteTypes'' \<mapsto> PStr [])) n"
      by (simp add: populate_cloze_def e e' cfg_get_def split: option.splits)
    from e p show ?thesis by (simp add: type_filtered_def)
  qed
  from first second show ?thesis by blast
qed

theorem nt_filter_tokens_witness:
  "nt_filter ascii_lower (defaults(''noteTypes'' \<mapsto> PStr (ascii '' , ,, ''))) = []
   \<and> populate_cloze ascii_lower (defaults(''noteTypes'' \<mapsto> PStr (ascii '' , ,, '')))
        \<lparr>note_id = 1, note_type = Some (ascii ''Vocab''),
         note_fields = [ascii ''Sentence'' \<mapsto> ascii ''I like tea'',
                        ascii ''Reading'' \<mapsto> ascii ''tea'',
                        ascii ''ClozeSentence'' \<mapsto> []]\<rparr>
      = populate_cloze ascii_lower
         (defaults(''noteTypes'' \<mapsto> PStr (ascii '' , ,, ''), ''noteTypes'' \<mapsto> PStr []))
        \<lparr>note_id = 1, note_type = Some (ascii ''Vocab''),
         note_fields = [ascii ''Sentence'' \<mapsto> ascii ''I like tea'',
                        ascii ''Reading'' \<mapsto> ascii ''tea'',
                        ascii ''ClozeSentence'' \<mapsto> []]\<rparr>
   \<and> py_split 44 (ascii '' , ,, '') = [ascii '' '', ascii '' '', [], ascii '' '']"
proof -
  let ?C = "defaults(''noteTypes'' \<mapsto> PStr (ascii '' , ,, ''))"
  have cfg: "?C ''noteTypes'' = Some (PStr (ascii '' , ,, ''))" by simp
  have ws: "\<forall>c\<in>set (ascii '' , ,, ''). c = 44 \<or> isspace c"
    by (auto simp: ascii_def isspace_def)
  have sp: "py_split 44 (ascii '' , ,, '') = [ascii '' '', ascii '' '', [], ascii '' '']"
    by (simp add: ascii_def)
  from nt_filter_tokens [of ?C ascii_lower "ascii '' , ,, ''"] cfg ws sp show ?thesis
    by blast
qed

section \<open>The bulk action\<close>





section \<open>The configuration store\<close>

lemma new_cfg_not_empty:
  assumes "key \<in> {''sentenceField'', ''wordField'', ''destinationField'', ''maskString''}"
  shows "\<exists>s. new_cfg CFG w_sentence w_word w_dest w_types w_mask w_lookup w_debug key = Some (PStr s)
             \<and> s \<noteq> []"
  using assms
  by (auto simp: new_cfg_def or_default_def ascii_def default_mask_def)

text \<open>
  C7, as amended. In every loaded configuration an option whose user-saved value is
  absent has its default value, and an option with a user-saved value has that value as
  it was saved, also when it is empty or whitespace. (The options dialog is where empty
  texts are replaced by defaults, before saving.)
\<close>

theorem load_cfg_overlay:
  "load_cfg None = defaults
   \<and> (user key = None \<longrightarrow> load_cfg (Some user) key = defaults key)
   \<and> (user key = Some v \<longrightarrow> load_cfg (Some user) key = Some v)
   \<and> defaults ''sentenceField'' = Some (PStr (ascii ''Sentence''))
   \<and> defaults ''wordField'' = Some (PStr (ascii ''Reading''))
   \<and> defaults ''destinationField'' = Some (PStr (ascii ''ClozeSentence''))
   \<and> defaults ''maskString'' = Some (PStr default_mask)"
proof -
  have none: "load_cfg None = defaults"
    by (simp add: load_cfg_def)
  have absent: "user key = None \<longrightarrow> load_cfg (Some user) key = defaults key"
    by (simp add: load_cfg_def map_add_def)
  have present: "user key = Some v \<longrightarrow> load_cfg (Some user) key = Some v"
    by (simp add: load_cfg_def)
  have dflt: "defaults ''sentenceField'' = Some (PStr (ascii ''Sentence''))"
    "defaults ''wordField'' = Some (PStr (ascii ''Reading''))"
    "defaults ''destinationField'' = Some (PStr (ascii ''ClozeSentence''))"
    "defaults ''maskString'' = Some (PStr default_mask)"
    by (simp_all add: defaults_def)
  from none absent present dflt show ?thesis by (intro conjI)
qed

text \<open>
  The claim as stated fails for a stored configuration whose \<open>maskString\<close> is empty
  and whose \<open>sentenceField\<close> is a blank: the loaded configuration has these values,
  not the defaults.
\<close>

theorem load_cfg_keeps_empty_values:
  "load_cfg (Some [''maskString'' \<mapsto> PStr [], ''sentenceField'' \<mapsto> PStr (ascii '' '')]) ''maskString''
     = Some (PStr [])
   \<and> load_cfg (Some [''maskString'' \<mapsto> PStr [], ''sentenceField'' \<mapsto> PStr (ascii '' '')]) ''sentenceField''
     = Some (PStr (ascii '' ''))
   \<and> strip (ascii '' '') = []
   \<and> defaults ''maskString'' = Some (PStr [9724, 9724, 9724])
   \<and> defaults ''sentenceField'' = Some (PStr (ascii ''Sentence''))"
  by (simp add: load_cfg_def map_add_def defaults_def default_mask_def strip_def isspace_def ascii_def)

theorem load_cfg_overlay_witness:
  "load_cfg (Some [''maskString'' \<mapsto> PStr []]) ''maskString'' = Some (PStr [])
   \<and> load_cfg (Some [''maskString'' \<mapsto> PStr []]) ''wordField'' = Some (PStr (ascii ''Reading''))"
proof -
  let ?u = "[''maskString'' \<mapsto> PStr []]"
  have a: "?u ''maskString'' = Some (PStr [])" by simp
  have b: "?u ''wordField'' = None" by simp
  from load_cfg_overlay [of ?u "''maskString''" "PStr []"] a
  have 1: "load_cfg (Some ?u) ''maskString'' = Some (PStr [])" by blast
  from load_cfg_overlay [of ?u "''wordField''"] b
  have 2: "load_cfg (Some ?u) ''wordField'' = Some (PStr (ascii ''Reading''))" by simp
  from 1 2 show ?thesis by (rule conjI)
qed

end
